theory Spec2Isabelle
  imports Main "HOL-Library.Sublist"
begin

section \<open>JavaScript values: errors, promises, strings\<close>

text \<open>
  The class \<open>FileSystem\<close> of \<open>lib/file_system.js\<close> is embedded method by method. Text is
  modelled by its UTF-8 byte string (\<open>string\<close>, a list of 8-bit characters): the line
  feed is the single byte 10 and never occurs inside a multi-byte character, so the line
  structure of a file is the same on bytes and on decoded text. The decoder itself
  (\<open>buffer.toString('utf8', ...)\<close>, \<open>readFile(file, 'utf8')\<close>) is not modelled; what
  is said about the text a chunked read returns, beyond its line structure, is said
  for files in which no chunk ends inside a multi-byte character.

  An \<open>Error\<close> object is modelled by its \<open>message\<close>, the only field the code inspects.
  An async function call is modelled by the settlement of the promise it returns.
\<close>

datatype error = Error (message: string)

datatype 'a promise = Fulfilled 'a | Rejected error

text \<open>\<open>p.then(f)\<close> and \<open>p.catch(g)\<close> for callbacks that do not throw.\<close>

definition promise_then :: "'a promise \<Rightarrow> ('a \<Rightarrow> 'b) \<Rightarrow> 'b promise" where
  "promise_then p f = (case p of Fulfilled v \<Rightarrow> Fulfilled (f v) | Rejected e \<Rightarrow> Rejected e)"

definition promise_catch :: "'a promise \<Rightarrow> (error \<Rightarrow> 'a) \<Rightarrow> 'a promise" where
  "promise_catch p g = (case p of Fulfilled v \<Rightarrow> Fulfilled v | Rejected e \<Rightarrow> Fulfilled (g e))"

text \<open>
  A call of a library function either throws synchronously or returns a value (for an
  async library function, a promise). The difference matters inside \<open>try\<close>: a
  promise that is returned without \<open>await\<close> is not covered by the \<open>catch\<close> clause.
\<close>

datatype 'a call = Threw error | Returned 'a

text \<open>\<open>s.includes(t)\<close>: \<open>t\<close> occurs in \<open>s\<close> as a contiguous substring.\<close>

fun str_includes :: "string \<Rightarrow> string \<Rightarrow> bool" where
  "str_includes [] t = (t = [])"
| "str_includes (c # s) t = (prefix t (c # s) \<or> str_includes s t)"

text \<open>\<open>s.split(c)\<close> for a one-character separator and \<open>parts.join(c)\<close>.\<close>

fun split_acc :: "char \<Rightarrow> string \<Rightarrow> string \<Rightarrow> string list" where
  "split_acc c cur [] = [cur]"
| "split_acc c cur (x # xs) =
     (if x = c then cur # split_acc c [] xs else split_acc c (cur @ [x]) xs)"

definition str_split :: "string \<Rightarrow> char \<Rightarrow> string list" where
  "str_split s c = split_acc c [] s"

fun str_join :: "string list \<Rightarrow> string \<Rightarrow> string" where
  "str_join [] d = []"
| "str_join [p] d = p"
| "str_join (p # q # ps) d = p @ d @ str_join (q # ps) d"

text \<open>\<open>s.indexOf(c, from)\<close>, with \<open>None\<close> for -1, and \<open>s.substring(a, b)\<close> for
  \<open>a \<le> b\<close> (the only way the code calls it).\<close>

definition indexOf :: "string \<Rightarrow> char \<Rightarrow> nat \<Rightarrow> nat option" where
  "indexOf s c from =
     (if c \<in> set (drop from s)
      then Some (from + length (takeWhile (\<lambda>x. x \<noteq> c) (drop from s)))
      else None)"

definition substring :: "string \<Rightarrow> nat \<Rightarrow> nat \<Rightarrow> string" where
  "substring s a b = take (b - a) (drop a s)"

section \<open>The host: platform and the \<open>path\<close> module\<close>

text \<open>
  \<open>process.platform\<close>, \<open>path.sep\<close>, \<open>path.resolve\<close> and \<open>path.relative\<close> belong to
  Node, not to the repository. They are parameters of the model, collected in a record;
  the code calls \<open>path.resolve\<close> with two arguments only.
\<close>

record host =
  platform_win32 :: bool
  path_sep :: char
  path_resolve :: "string \<Rightarrow> string \<Rightarrow> string"
  path_relative :: "string \<Rightarrow> string \<Rightarrow> string"

subsection \<open>The POSIX instance\<close>

text \<open>
  Node's \<open>path.posix\<close>, on path segments. \<open>normalizeString\<close> drops empty and \<open>.\<close>
  segments and resolves \<open>..\<close> against the segments kept so far (a stack, last segment
  first); above the root \<open>..\<close> is dropped unless \<open>allowAboveRoot\<close>.
\<close>

fun normalizeString :: "bool \<Rightarrow> string list \<Rightarrow> string list \<Rightarrow> string list" where
  "normalizeString allowAboveRoot st [] = rev st"
| "normalizeString allowAboveRoot st (s # ss) =
     (if s = [] \<or> s = ''.'' then normalizeString allowAboveRoot st ss
      else if s = ''..'' then
        (case st of
           [] \<Rightarrow> normalizeString allowAboveRoot (if allowAboveRoot then [s] else []) ss
         | t # st' \<Rightarrow>
             if t = ''..'' then normalizeString allowAboveRoot (if allowAboveRoot then s # st else st) ss
             else normalizeString allowAboveRoot st' ss)
      else normalizeString allowAboveRoot (s # st) ss)"

text \<open>
  \<open>posix.resolve\<close> walks its arguments from the right, then the working directory,
  prepending \<open>path + '/'\<close> until the path is absolute; empty arguments are skipped.
  The list given here is in that order (rightmost argument first).
\<close>

fun resolve_prepend :: "string list \<Rightarrow> string" where
  "resolve_prepend [] = []"
| "resolve_prepend (p # ps) =
     (if p = [] then resolve_prepend ps
      else if hd p = CHR ''/'' then p @ ''/''
      else resolve_prepend ps @ p @ ''/'')"

definition posix_resolve :: "string \<Rightarrow> string \<Rightarrow> string \<Rightarrow> string" where
  "posix_resolve cwd a b =
     (let resolvedPath = resolve_prepend [b, a, cwd];
          resolvedAbsolute = (resolvedPath \<noteq> [] \<and> hd resolvedPath = CHR ''/'');
          normalized = str_join (normalizeString (\<not> resolvedAbsolute) [] (str_split resolvedPath CHR ''/'')) ''/''
      in if resolvedAbsolute then ''/'' @ normalized
         else if normalized \<noteq> [] then normalized else ''.'')"

text \<open>
  \<open>posix.relative(from, to)\<close>: both paths are resolved; the common leading segments are
  dropped; one \<open>..\<close> for every segment left of \<open>from\<close>, then what is left of \<open>to\<close>.
\<close>

fun drop_common :: "string list \<Rightarrow> string list \<Rightarrow> string list \<times> string list" where
  "drop_common (x # xs) (y # ys) = (if x = y then drop_common xs ys else (x # xs, y # ys))"
| "drop_common xs ys = (xs, ys)"

definition segments :: "string \<Rightarrow> string list" where
  "segments p = filter (\<lambda>s. s \<noteq> []) (str_split p CHR ''/'')"

definition posix_relative :: "string \<Rightarrow> string \<Rightarrow> string \<Rightarrow> string" where
  "posix_relative cwd from to =
     (if from = to then []
      else let from' = posix_resolve cwd [] from; to' = posix_resolve cwd [] to
           in if from' = to' then []
              else (case drop_common (segments from') (segments to') of
                      (fs, ts) \<Rightarrow> str_join (replicate (length fs) ''..'' @ ts) ''/''))"

text \<open>A segment of a normalized path: not empty, not \<open>.\<close> or \<open>..\<close>, without a slash.\<close>

definition plain_segment :: "string \<Rightarrow> bool" where
  "plain_segment s \<longleftrightarrow> s \<noteq> [] \<and> s \<noteq> ''.'' \<and> s \<noteq> ''..'' \<and> CHR ''/'' \<notin> set s"

definition posix_host :: "string \<Rightarrow> host" where
  "posix_host cwd =
     \<lparr> platform_win32 = False, path_sep = CHR ''/'',
       path_resolve = posix_resolve cwd, path_relative = posix_relative cwd \<rparr>"

section \<open>The file system seen through \<open>fs.promises\<close>\<close>

text \<open>
  A path names a regular file with its bytes, a directory, or an entry on which every
  operation fails with a given error (permission denied, too many links, I/O error);
  an unmapped path does not exist. The world also records which file
  descriptors are open (\<open>open\<close> adds one, \<open>close\<close> removes it) and which paths are
  symbolic links (what \<open>lstat\<close> tells); the operations below follow a link, so
  \<open>files\<close> gives a link the node of its target. Errors carry messages in libuv's
  format, \<open>CODE: description, syscall 'path'\<close>.
\<close>

datatype node = File string | Dir | Faulty error

record world =
  files :: "string \<rightharpoonup> node"
  open_fds :: "nat list"
  symbolic_links :: "string set"

definition uv_error :: "string \<Rightarrow> string \<Rightarrow> string \<Rightarrow> string \<Rightarrow> error" where
  "uv_error code desc syscall p =
     Error (code @ '': '' @ desc @ '', '' @ syscall @ '' '' @ [CHR 0x27] @ p @ [CHR 0x27])"

definition ENOENT :: "string \<Rightarrow> string \<Rightarrow> error" where
  "ENOENT = uv_error ''ENOENT'' ''no such file or directory''"

definition EACCES :: "string \<Rightarrow> string \<Rightarrow> error" where
  "EACCES = uv_error ''EACCES'' ''permission denied''"

definition EISDIR :: "string \<Rightarrow> string \<Rightarrow> error" where
  "EISDIR = uv_error ''EISDIR'' ''illegal operation on a directory''"

definition ENOTDIR :: "string \<Rightarrow> string \<Rightarrow> error" where
  "ENOTDIR = uv_error ''ENOTDIR'' ''not a directory''"

definition EISDIR_read :: error where
  "EISDIR_read = Error ''EISDIR: illegal operation on a directory, read''"

text \<open>\<open>fs.promises.access(file, fs.constants.F_OK)\<close>\<close>

definition fs_access :: "world \<Rightarrow> string \<Rightarrow> unit promise" where
  "fs_access w p =
     (case files w p of
        None \<Rightarrow> Rejected (ENOENT ''access'' p)
      | Some (Faulty e) \<Rightarrow> Rejected e
      | Some _ \<Rightarrow> Fulfilled ())"

text \<open>\<open>fs.promises.readFile(file, 'utf8')\<close>\<close>

definition fs_readFile :: "world \<Rightarrow> string \<Rightarrow> string promise" where
  "fs_readFile w p =
     (case files w p of
        None \<Rightarrow> Rejected (ENOENT ''open'' p)
      | Some (Faulty e) \<Rightarrow> Rejected e
      | Some Dir \<Rightarrow> Rejected EISDIR_read
      | Some (File t) \<Rightarrow> Fulfilled t)"

text \<open>\<open>fs.promises.writeFile(file, contents)\<close>: creates or truncates a regular file.\<close>

definition fs_writeFile :: "world \<Rightarrow> string \<Rightarrow> string \<Rightarrow> unit promise \<times> world" where
  "fs_writeFile w p contents =
     (case files w p of
        Some (Faulty e) \<Rightarrow> (Rejected e, w)
      | Some Dir \<Rightarrow> (Rejected (EISDIR ''open'' p), w)
      | _ \<Rightarrow> (Fulfilled (), w\<lparr>files := (files w)(p \<mapsto> File contents)\<rparr>))"

text \<open>
  A path that continues below a regular file (\<open>LICENSE/x\<close> where \<open>LICENSE\<close> is a file):
  some proper prefix of it, ending before a slash, names a regular file. Opening such
  a path fails with \<open>ENOTDIR\<close>, not with \<open>ENOENT\<close>.
\<close>

definition is_file :: "node option \<Rightarrow> bool" where
  "is_file n = (case n of Some (File _) \<Rightarrow> True | _ \<Rightarrow> False)"

fun below_file_from :: "world \<Rightarrow> string \<Rightarrow> string \<Rightarrow> bool" where
  "below_file_from w pre [] = False"
| "below_file_from w pre (c # cs) =
     ((c = CHR ''/'' \<and> is_file (files w pre)) \<or> below_file_from w (pre @ [c]) cs)"

definition below_file :: "world \<Rightarrow> string \<Rightarrow> bool" where
  "below_file w p = below_file_from w [] p"

text \<open>
  \<open>fs.promises.open(file, 'r')\<close> gives a \<open>FileHandle\<close>: a descriptor and the bytes not
  read yet. On POSIX a directory opens for reading; it is \<open>read\<close> that fails on it.
  \<open>fd.read(buffer, 0, n, null)\<close> reads up to \<open>n\<close> bytes at the current position and
  advances it; \<open>bytesRead\<close> is the length of the bytes returned.
\<close>

record FileHandle =
  fd_num :: nat
  fd_dir :: bool
  unread :: string

definition fresh_fd :: "nat list \<Rightarrow> nat" where
  "fresh_fd ds = Suc (fold max ds 0)"

definition fs_open :: "world \<Rightarrow> string \<Rightarrow> FileHandle promise \<times> world" where
  "fs_open w p =
     (case files w p of
        None \<Rightarrow>
          (Rejected (if below_file w p then ENOTDIR ''open'' p else ENOENT ''open'' p), w)
      | Some (Faulty e) \<Rightarrow> (Rejected e, w)
      | Some Dir \<Rightarrow>
          (Fulfilled \<lparr>fd_num = fresh_fd (open_fds w), fd_dir = True, unread = []\<rparr>,
           w\<lparr>open_fds := fresh_fd (open_fds w) # open_fds w\<rparr>)
      | Some (File t) \<Rightarrow>
          (Fulfilled \<lparr>fd_num = fresh_fd (open_fds w), fd_dir = False, unread = t\<rparr>,
           w\<lparr>open_fds := fresh_fd (open_fds w) # open_fds w\<rparr>))"

definition fd_read :: "FileHandle \<Rightarrow> nat \<Rightarrow> (string \<times> FileHandle) promise" where
  "fd_read fd n =
     (if fd_dir fd then Rejected EISDIR_read
      else Fulfilled (take n (unread fd), fd\<lparr>unread := drop n (unread fd)\<rparr>))"

definition fd_close :: "FileHandle \<Rightarrow> world \<Rightarrow> world" where
  "fd_close fd w = w\<lparr>open_fds := remove1 (fd_num fd) (open_fds w)\<rparr>"

section \<open>The class \<open>FileSystem\<close>\<close>

record FileSystem =
  targetDir :: string
  filterPaths :: "string list"

definition fileExists :: "world \<Rightarrow> string \<Rightarrow> bool promise" where
  "fileExists w file =
     promise_catch (promise_then (fs_access w file) (\<lambda>_. True)) (\<lambda>_. False)"

definition relativeFileExists :: "host \<Rightarrow> FileSystem \<Rightarrow> world \<Rightarrow> string \<Rightarrow> bool promise" where
  "relativeFileExists h this w file = fileExists w (path_resolve h (targetDir this) file)"

text \<open>\<open>undefined\<close> is \<open>None\<close>. The \<open>await\<close> inside \<open>try\<close> turns every rejection of
  \<open>readFile\<close> into the \<open>catch\<close> branch.\<close>

definition getFileContents :: "host \<Rightarrow> FileSystem \<Rightarrow> world \<Rightarrow> string \<Rightarrow> string option promise" where
  "getFileContents h this w relativeFile =
     (let file = path_resolve h (targetDir this) relativeFile
      in case fs_readFile w file of
           Fulfilled text \<Rightarrow> Fulfilled (Some text)
         | Rejected e \<Rightarrow> Fulfilled None)"

definition setFileContents ::
  "host \<Rightarrow> FileSystem \<Rightarrow> world \<Rightarrow> string \<Rightarrow> string \<Rightarrow> unit promise \<times> world" where
  "setFileContents h this w relativeFile contents =
     fs_writeFile w (path_resolve h (targetDir this) relativeFile) contents"

text \<open>\<open>fs.promises.unlink\<close> through \<open>removeFile\<close> is not needed by any property below.\<close>

subsection \<open>Path normalisation and the inclusion filter\<close>

definition normalizePath :: "host \<Rightarrow> string \<Rightarrow> string" where
  "normalizePath h filepath =
     (if platform_win32 h then str_join (str_split filepath (path_sep h)) ''/'' else filepath)"

text \<open>
  The canonical form of a path as the design describes it: on a host with a path
  separator of its own (win32) every separator becomes a forward slash, on any other
  host the path is unchanged.
\<close>

definition canonical_form :: "host \<Rightarrow> string \<Rightarrow> string" where
  "canonical_form h p =
     (if platform_win32 h then map (\<lambda>c. if c = path_sep h then CHR ''/'' else c) p else p)"

definition shouldInclude :: "host \<Rightarrow> FileSystem \<Rightarrow> string \<Rightarrow> bool" where
  "shouldInclude h this filePath =
     (if length (filterPaths this) = 0 then True
      else let resolvedPath =
                 normalizePath h
                   (path_relative h (targetDir this) (path_resolve h (targetDir this) filePath))
           in list_ex (\<lambda>p. prefix p resolvedPath) (map (normalizePath h) (filterPaths this)))"

subsection \<open>Glob expansion and discovery\<close>

text \<open>
  The glob engine (the package \<open>matched\<close> over the file system) is a parameter. It takes
  one pattern or a list of patterns and the options object, and its promise settles
  with the matches. When the options carry a \<open>symlinks\<close> object the engine records in
  it, by absolute path, whether an entry it met is a symbolic link; the second
  component of the result is the content of that object afterwards (its own enumerable
  properties, in insertion order).
\<close>

datatype globs = Pattern string | Patterns "string list"

record glob_options =
  opt_cwd :: string
  opt_nocase :: bool
  opt_nodir :: bool
  opt_symlinks :: "(string \<times> bool) list option"

type_synonym engine = "globs \<Rightarrow> glob_options \<Rightarrow> (string list \<times> (string \<times> bool) list) promise"

text \<open>\<open>!!nocase\<close> for an argument that may be \<open>undefined\<close>.\<close>

definition truthy :: "bool option \<Rightarrow> bool" where
  "truthy v = (case v of None \<Rightarrow> False | Some b \<Rightarrow> b)"

text \<open>\<open>typeof globs === 'string' ? this.normalizePath(globs) : globs.map(g => this.normalizePath(g))\<close>\<close>

definition fixGlobs :: "host \<Rightarrow> globs \<Rightarrow> globs" where
  "fixGlobs h gs =
     (case gs of Pattern g \<Rightarrow> Pattern (normalizePath h g)
               | Patterns l \<Rightarrow> Patterns (map (normalizePath h) l))"

definition glob ::
  "host \<Rightarrow> FileSystem \<Rightarrow> engine \<Rightarrow> globs \<Rightarrow> glob_options \<Rightarrow>
     (string list \<times> (string \<times> bool) list) promise" where
  "glob h this matched gs options =
     (let fixedGlobs = fixGlobs h gs
      in case matched fixedGlobs options of
           Rejected e \<Rightarrow> Rejected e
         | Fulfilled (paths, links) \<Rightarrow>
             Fulfilled (filter (shouldInclude h this) (map (normalizePath h) paths), links))"

definition findAll ::
  "host \<Rightarrow> FileSystem \<Rightarrow> engine \<Rightarrow> globs \<Rightarrow> bool option \<Rightarrow> string list promise" where
  "findAll h this matched gs nocase =
     (let fixedGlobs = fixGlobs h gs
      in promise_then
           (glob h this matched fixedGlobs
              \<lparr> opt_cwd = targetDir this, opt_nocase = truthy nocase, opt_nodir = False,
                opt_symlinks = None \<rparr>)
           fst)"

text \<open>
  \<open>onlySymlinks\<close> is a plain object used as a set of keys. Reading \<open>onlySymlinks[k]\<close>
  also finds what every object inherits from \<open>Object.prototype\<close>, and all of that is
  truthy; assigning \<open>true\<close> to the key \<open>__proto__\<close> has no effect, and reading it is
  truthy all the same.
\<close>

definition object_prototype_keys :: "string list" where
  "object_prototype_keys =
     [''constructor'', ''__defineGetter__'', ''__defineSetter__'', ''hasOwnProperty'',
      ''__lookupGetter__'', ''__lookupSetter__'', ''isPrototypeOf'', ''propertyIsEnumerable'',
      ''toString'', ''valueOf'', ''__proto__'', ''toLocaleString'']"

definition object_truthy :: "string list \<Rightarrow> string \<Rightarrow> bool" where
  "object_truthy keys k = (k \<in> set keys \<or> k \<in> set object_prototype_keys)"

definition findAllFiles ::
  "host \<Rightarrow> FileSystem \<Rightarrow> engine \<Rightarrow> globs \<Rightarrow> bool option \<Rightarrow> string list promise" where
  "findAllFiles h this matched gs nocase =
     (case glob h this matched gs
             \<lparr> opt_cwd = targetDir this, opt_nocase = truthy nocase, opt_nodir = True,
               opt_symlinks = Some [] \<rparr> of
        Rejected e \<Rightarrow> Rejected e
      | Fulfilled (filePaths, symlinks) \<Rightarrow>
          (let onlySymlinks =
                 map (\<lambda>fullPath. normalizePath h (path_relative h (targetDir this) fullPath))
                   (filter (\<lambda>fullPath. map_of symlinks fullPath = Some True) (map fst symlinks))
           in Fulfilled
                (filter (\<lambda>filePath. \<not> object_truthy onlySymlinks (normalizePath h filePath))
                   filePaths)))"

text \<open>\<open>if (allFiles.length > 0) { return allFiles[0] }\<close>, else \<open>undefined\<close>.\<close>

definition first_or_undefined :: "string list \<Rightarrow> string option" where
  "first_or_undefined allFiles = (if length allFiles > 0 then Some (allFiles ! 0) else None)"

definition findFirst ::
  "host \<Rightarrow> FileSystem \<Rightarrow> engine \<Rightarrow> globs \<Rightarrow> bool option \<Rightarrow> string option promise" where
  "findFirst h this matched gs nocase =
     (case findAll h this matched gs nocase of
        Rejected e \<Rightarrow> Rejected e
      | Fulfilled allFiles \<Rightarrow> Fulfilled (first_or_undefined allFiles))"

definition findFirstFile ::
  "host \<Rightarrow> FileSystem \<Rightarrow> engine \<Rightarrow> globs \<Rightarrow> bool option \<Rightarrow> string option promise" where
  "findFirstFile h this matched gs nocase =
     (case findAllFiles h this matched gs nocase of
        Rejected e \<Rightarrow> Rejected e
      | Fulfilled allFiles \<Rightarrow> Fulfilled (first_or_undefined allFiles))"

subsection \<open>Binary detection\<close>

text \<open>
  The probe \<open>isBinaryFile.isBinaryFile\<close> of the package \<open>isbinaryfile\<close> is a parameter:
  called on the resolved path it throws or returns a promise. The method returns that
  promise from inside \<open>try\<close> without awaiting it, so the \<open>catch\<close> clause sees only
  what the call throws synchronously; a returned promise settles the method's own.
\<close>

definition isBinaryFile ::
  "host \<Rightarrow> FileSystem \<Rightarrow> (string \<Rightarrow> bool promise call) \<Rightarrow> string \<Rightarrow> bool promise" where
  "isBinaryFile h this probe relativeFile =
     (let file = path_resolve h (targetDir this) relativeFile
      in case probe file of
           Returned p \<Rightarrow> p
         | Threw e \<Rightarrow> if str_includes (message e) ''ENOENT'' then Fulfilled False else Rejected e)"

subsection \<open>The bounded line reader\<close>

definition newline :: char where
  "newline = CHR 0x0A"

definition bufferSize :: nat where
  "bufferSize = 1024"

text \<open>
  The inner \<open>while\<close> loop over the rolling buffer. It either returns from the method
  (\<open>Return lines\<close>) or falls through to \<open>leftOver = leftOver.substring(idxStart)\<close> and the
  next read (\<open>Continue leftOver lines lineNumber\<close>).
\<close>

datatype scan_result = Return string | Continue string string nat

function scan :: "string \<Rightarrow> nat \<Rightarrow> string \<Rightarrow> nat \<Rightarrow> int \<Rightarrow> scan_result" where
  "scan leftOver idxStart lines lineNumber lineCount =
     (case indexOf leftOver newline idxStart of
        None \<Rightarrow> Continue (drop idxStart leftOver) lines lineNumber
      | Some idx \<Rightarrow>
          (if int (lineNumber + 1) \<ge> lineCount
           then Return (lines @ substring leftOver idxStart idx @ [newline])
           else scan leftOver (idx + 1) (lines @ substring leftOver idxStart idx @ [newline])
                  (lineNumber + 1) lineCount))"
  by pat_completeness auto
termination
proof (relation "measure (\<lambda>(leftOver, idxStart, _). length leftOver - idxStart)")
  fix leftOver :: string and idxStart idx :: nat
    and lines :: string and lineNumber :: nat and lineCount :: int
  assume found: "indexOf leftOver newline idxStart = Some idx"
  have shorter: "newline \<in> set xs \<Longrightarrow> length (takeWhile (\<lambda>x. x \<noteq> newline) xs) < length xs"
    for xs :: string
    by (induction xs) auto
  from found have mem: "newline \<in> set (drop idxStart leftOver)"
    and idx: "idx = idxStart + length (takeWhile (\<lambda>x. x \<noteq> newline) (drop idxStart leftOver))"
    by (auto simp: indexOf_def split: if_splits)
  from shorter [OF mem] idx have "idx < length leftOver" and "idxStart \<le> idx"
    by auto
  then show "((leftOver, idx + 1, lines @ substring leftOver idxStart idx @ [newline],
               lineNumber + 1, lineCount),
              (leftOver, idxStart, lines, lineNumber, lineCount))
             \<in> measure (\<lambda>(leftOver, idxStart, _). length leftOver - idxStart)"
    by simp
qed simp

text \<open>
  The outer \<open>while (true)\<close> loop. A rejected \<open>fd.read\<close> leaves the method at the
  \<open>await\<close>: nothing after it runs, the world stays as it is. The two other exits
  call \<open>fd.close()\<close>.
\<close>

function read_loop ::
  "FileHandle \<Rightarrow> string \<Rightarrow> string \<Rightarrow> nat \<Rightarrow> int \<Rightarrow> world \<Rightarrow> string option promise \<times> world" where
  "read_loop fd leftOver lines lineNumber lineCount w =
     (case fd_read fd bufferSize of
        Rejected e \<Rightarrow> (Rejected e, w)
      | Fulfilled (bytes, fd') \<Rightarrow>
          if length bytes = 0 then (Fulfilled (Some lines), fd_close fd' w)
          else (case scan (leftOver @ bytes) 0 lines lineNumber lineCount of
                  Return lines' \<Rightarrow> (Fulfilled (Some lines'), fd_close fd' w)
                | Continue leftOver' lines' lineNumber' \<Rightarrow>
                    read_loop fd' leftOver' lines' lineNumber' lineCount w))"
  by pat_completeness auto
termination
  by (relation "measure (\<lambda>(fd, _). length (unread fd))")
     (auto simp: fd_read_def bufferSize_def split: if_splits)

declare scan.simps [simp del] read_loop.simps [simp del]

text \<open>
  In the \<open>catch\<close> around \<open>open\<close> the variable \<open>fd\<close> is still \<open>undefined\<close>, so
  \<open>if (fd) fd.close()\<close> does nothing. The path is resolved twice, as in the source.
\<close>

definition getFileLines ::
  "host \<Rightarrow> FileSystem \<Rightarrow> world \<Rightarrow> string \<Rightarrow> int \<Rightarrow> string option promise \<times> world" where
  "getFileLines h this w relativeFile lineCount =
     (let file = path_resolve h (targetDir this) relativeFile
      in case fs_open w (path_resolve h (targetDir this) file) of
           (Rejected e, w') \<Rightarrow>
             if str_includes (message e) ''ENOENT'' then (Fulfilled None, w') else (Rejected e, w')
         | (Fulfilled fd, w') \<Rightarrow> read_loop fd [] [] 0 lineCount w')"

subsection \<open>Lines of a file\<close>

text \<open>
  The newline-terminated lines of a text, each with its newline; what follows the last
  newline is not a line. This is the notion of line of the reader's contract ("the
  first N newline-terminated lines, each retaining its trailing newline").
\<close>

fun lines_from :: "string \<Rightarrow> string \<Rightarrow> string list" where
  "lines_from cur [] = []"
| "lines_from cur (c # cs) =
     (if c = newline then (cur @ [newline]) # lines_from [] cs else lines_from (cur @ [c]) cs)"

definition terminated_lines :: "string \<Rightarrow> string list" where
  "terminated_lines s = lines_from [] s"

text \<open>The first \<open>k\<close> newline-terminated lines as a single string (all of them when
  there are fewer), and what follows the last newline of a text.\<close>

definition first_lines :: "nat \<Rightarrow> string \<Rightarrow> string" where
  "first_lines k s = concat (take k (terminated_lines s))"

definition unterminated_tail :: "string \<Rightarrow> string" where
  "unterminated_tail s = rev (takeWhile (\<lambda>x. x \<noteq> newline) (rev s))"

text \<open>
  The reader decodes every chunk of \<open>bufferSize\<close> bytes on its own. A chunk that ends
  inside a multi-byte character decodes to replacement characters, and the text is no
  longer the text of the file; bytes stand for the text read only when no chunk starts
  with a continuation byte (\<open>10xxxxxx\<close>) of UTF-8.
\<close>

definition continuation_byte :: "char \<Rightarrow> bool" where
  "continuation_byte b \<longleftrightarrow> 0x80 \<le> (of_char b :: nat) \<and> (of_char b :: nat) < 0xC0"

definition chunk_aligned :: "string \<Rightarrow> bool" where
  "chunk_aligned c \<longleftrightarrow>
     list_all (\<lambda>k. \<not> continuation_byte (c ! (k * bufferSize)))
       [1..<Suc ((length c - 1) div bufferSize)]"

section \<open>Example inputs\<close>

text \<open>
  A repository at \<open>/repo\<close> on a POSIX host with a regular file \<open>LICENSE\<close>, a file
  \<open>NOTES\<close> of two lines and an unterminated third, a directory \<open>docs\<close>, an entry that
  may not be opened, and a symbolic link \<open>link\<close> to \<open>LICENSE\<close> (read through, it has
  the content of its target).
\<close>

definition notes_text :: string where
  "notes_text = ''one'' @ [newline] @ ''two'' @ [newline] @ ''rest''"

definition example_world :: world where
  "example_world =
     \<lparr> files = [''/repo/LICENSE'' \<mapsto> File ''MIT'', ''/repo/link'' \<mapsto> File ''MIT'',
                ''/repo/NOTES'' \<mapsto> File notes_text, ''/repo/docs'' \<mapsto> Dir,
                ''/repo/secret'' \<mapsto> Faulty (EACCES ''open'' ''/repo/secret'')],
       open_fds = [], symbolic_links = {''/repo/link''} \<rparr>"

definition example_fs :: FileSystem where
  "example_fs = \<lparr> targetDir = ''/repo'', filterPaths = [] \<rparr>"

definition docs_fs :: FileSystem where
  "docs_fs = \<lparr> targetDir = ''/repo'', filterPaths = [''docs''] \<rparr>"

text \<open>
  What glob expansion gives when \<open>LICENSE\<close> and \<open>link\<close> are the only entries it meets
  under \<open>/repo\<close>. Matches are relative to \<open>cwd\<close>, also for the pattern \<open>./**\<close>. The
  entries met while expanding \<open>**\<close> are recorded in the \<open>symlinks\<close> object by absolute
  path; expanding \<open>*\<close> records nothing, and the object stays as it was passed.
\<close>

definition example_links :: "(string \<times> bool) list" where
  "example_links = [(''/repo/LICENSE'', False), (''/repo/link'', True)]"

definition example_matched :: engine where
  "example_matched gs options =
     (let links = (case opt_symlinks options of None \<Rightarrow> [] | Some _ \<Rightarrow> example_links);
          passed = (case opt_symlinks options of None \<Rightarrow> [] | Some l \<Rightarrow> l)
      in if gs = Pattern ''**'' \<or> gs = Pattern ''./**''
         then Fulfilled ([''LICENSE'', ''link''], links)
         else if gs = Pattern ''*'' then Fulfilled ([''LICENSE'', ''link''], passed)
         else Fulfilled ([], passed))"

text \<open>
  A win32 host. Its \<open>path.resolve\<close> and \<open>path.relative\<close> are given for the one shape
  of arguments used below: an absolute directory without a trailing separator joined
  with a plain relative path, and a path below that directory made relative to it.
\<close>

definition backslash :: char where
  "backslash = CHR 0x5C"

definition win32_example_host :: host where
  "win32_example_host =
     \<lparr> platform_win32 = True, path_sep = backslash,
       path_resolve = (\<lambda>dir rel. dir @ [backslash] @ rel),
       path_relative = (\<lambda>from to. drop (length from + 1) to) \<rparr>"

definition win32_docs_fs :: FileSystem where
  "win32_docs_fs = \<lparr> targetDir = ''C:'' @ [backslash] @ ''repo'', filterPaths = [''docs/''] \<rparr>"

text \<open>A probe that behaves as an async function: it never throws, and its promise is
  rejected with the error of \<open>stat\<close> on a path that does not exist.\<close>

definition example_probe :: "string \<Rightarrow> bool promise call" where
  "example_probe file =
     (case files example_world file of
        None \<Rightarrow> Returned (Rejected (ENOENT ''stat'' file))
      | Some _ \<Rightarrow> Returned (Fulfilled False))"

section \<open>Existence checks\<close>

lemma fileExists_cases:
  "fileExists w file = Fulfilled (fs_access w file = Fulfilled ())"
  by (cases "fs_access w file") (simp_all add: fileExists_def promise_then_def promise_catch_def)

text \<open>
  C7. \<open>fileExists\<close> always fulfils with a boolean and never rejects: any failure of the
  access probe, whatever its error, gives \<open>false\<close>, and a successful probe gives
  \<open>true\<close>. \<open>relativeFileExists\<close> resolves its argument against \<open>targetDir\<close> and
  delegates to \<open>fileExists\<close>, so it never rejects either.
\<close>

theorem fileExists_never_rejects:
  "(\<exists>b. fileExists w P = Fulfilled b)
   \<and> (\<forall>e. fs_access w P = Rejected e \<longrightarrow> fileExists w P = Fulfilled False)
   \<and> (fs_access w P = Fulfilled () \<longrightarrow> fileExists w P = Fulfilled True)
   \<and> relativeFileExists h this w R = fileExists w (path_resolve h (targetDir this) R)
   \<and> (\<exists>b. relativeFileExists h this w R = Fulfilled b)"
  by (simp add: fileExists_cases relativeFileExists_def)

lemma resolve_examples:
  "path_resolve (posix_host ''/home'') ''/repo'' ''LICENSE'' = ''/repo/LICENSE''"
  "path_resolve (posix_host ''/home'') ''/repo'' ''missing'' = ''/repo/missing''"
  "path_resolve (posix_host ''/home'') ''/repo'' ''secret'' = ''/repo/secret''"
  "path_resolve (posix_host ''/home'') ''/repo'' ''docs'' = ''/repo/docs''"
  "path_resolve (posix_host ''/home'') ''/repo'' ''LICENSE/x'' = ''/repo/LICENSE/x''"
  "path_resolve (posix_host ''/home'') ''/repo'' ''/repo/LICENSE/x'' = ''/repo/LICENSE/x''"
  "path_resolve (posix_host ''/home'') ''/repo'' ''/repo/docs'' = ''/repo/docs''"
  "path_resolve (posix_host ''/home'') ''/repo'' ''/repo/LICENSE'' = ''/repo/LICENSE''"
  "path_resolve (posix_host ''/home'') ''/repo'' ''/repo/missing'' = ''/repo/missing''"
  "path_resolve (posix_host ''/home'') ''/repo'' ''NOTES'' = ''/repo/NOTES''"
  "path_resolve (posix_host ''/home'') ''/repo'' ''/repo/NOTES'' = ''/repo/NOTES''"
  by (simp_all add: posix_host_def posix_resolve_def str_split_def)

theorem fileExists_never_rejects_witness:
  "fs_access example_world ''/repo/secret'' = Rejected (EACCES ''open'' ''/repo/secret'')
   \<and> fileExists example_world ''/repo/secret'' = Fulfilled False
   \<and> fs_access example_world ''/repo/LICENSE'' = Fulfilled ()
   \<and> fileExists example_world ''/repo/LICENSE'' = Fulfilled True
   \<and> relativeFileExists (posix_host ''/home'') example_fs example_world ''missing'' = Fulfilled False"
proof -
  have secret: "fs_access example_world ''/repo/secret'' = Rejected (EACCES ''open'' ''/repo/secret'')"
    by (simp add: fs_access_def example_world_def)
  have license: "fs_access example_world ''/repo/LICENSE'' = Fulfilled ()"
    by (simp add: fs_access_def example_world_def)
  have missing: "fs_access example_world ''/repo/missing'' = Rejected (ENOENT ''access'' ''/repo/missing'')"
    by (simp add: fs_access_def example_world_def)
  from fileExists_never_rejects [of example_world "''/repo/secret''"] secret
  have 1: "fileExists example_world ''/repo/secret'' = Fulfilled False" by blast
  from fileExists_never_rejects [of example_world "''/repo/LICENSE''"] license
  have 2: "fileExists example_world ''/repo/LICENSE'' = Fulfilled True" by blast
  from fileExists_never_rejects [of example_world "''/repo/missing''" "posix_host ''/home''" example_fs "''missing''"]
    missing
  have 3: "relativeFileExists (posix_host ''/home'') example_fs example_world ''missing'' = Fulfilled False"
    by (simp add: resolve_examples example_fs_def)
  from secret license 1 2 3 show ?thesis by simp
qed

section \<open>Content I/O\<close>

lemma getFileContents_cases:
  "getFileContents h this w P =
     Fulfilled (case files w (path_resolve h (targetDir this) P) of
                  Some (File t) \<Rightarrow> Some t | _ \<Rightarrow> None)"
  by (simp add: getFileContents_def fs_readFile_def split: option.split node.split)

text \<open>
  C6. \<open>getFileContents\<close> fulfils with the whole text of the file when the read
  succeeds, and with \<open>undefined\<close> when the read fails, whatever the error (missing
  file, directory, permission denied or any other); it never rejects, so the caller
  sees absence only, not its cause.
\<close>

theorem getFileContents_text_or_absent:
  "(\<forall>t. fs_readFile w (path_resolve h (targetDir this) P) = Fulfilled t
          \<longrightarrow> getFileContents h this w P = Fulfilled (Some t))
   \<and> (\<forall>e. fs_readFile w (path_resolve h (targetDir this) P) = Rejected e
          \<longrightarrow> getFileContents h this w P = Fulfilled None)
   \<and> (files w (path_resolve h (targetDir this) P) = None
          \<longrightarrow> getFileContents h this w P = Fulfilled None)
   \<and> (files w (path_resolve h (targetDir this) P) = Some Dir
          \<longrightarrow> getFileContents h this w P = Fulfilled None)
   \<and> (\<forall>e. files w (path_resolve h (targetDir this) P) = Some (Faulty e)
          \<longrightarrow> getFileContents h this w P = Fulfilled None)
   \<and> (\<forall>e. getFileContents h this w P \<noteq> Rejected e)"
  by (auto simp: getFileContents_cases fs_readFile_def split: option.splits node.splits)

theorem getFileContents_text_or_absent_witness:
  "fs_readFile example_world ''/repo/LICENSE'' = Fulfilled ''MIT''
   \<and> getFileContents (posix_host ''/home'') example_fs example_world ''LICENSE'' = Fulfilled (Some ''MIT'')
   \<and> fs_readFile example_world ''/repo/secret'' = Rejected (EACCES ''open'' ''/repo/secret'')
   \<and> getFileContents (posix_host ''/home'') example_fs example_world ''secret'' = Fulfilled None
   \<and> files example_world ''/repo/missing'' = None
   \<and> getFileContents (posix_host ''/home'') example_fs example_world ''missing'' = Fulfilled None
   \<and> files example_world ''/repo/docs'' = Some Dir
   \<and> getFileContents (posix_host ''/home'') example_fs example_world ''docs'' = Fulfilled None"
proof -
  let ?h = "posix_host ''/home''"
  have a: "fs_readFile example_world ''/repo/LICENSE'' = Fulfilled ''MIT''"
    and b: "fs_readFile example_world ''/repo/secret'' = Rejected (EACCES ''open'' ''/repo/secret'')"
    and c: "files example_world ''/repo/missing'' = None"
    and d: "files example_world ''/repo/docs'' = Some Dir"
    by (simp_all add: fs_readFile_def example_world_def)
  from getFileContents_text_or_absent [of example_world ?h example_fs "''LICENSE''"] a
  have 1: "getFileContents ?h example_fs example_world ''LICENSE'' = Fulfilled (Some ''MIT'')"
    by (simp add: resolve_examples example_fs_def)
  from getFileContents_text_or_absent [of example_world ?h example_fs "''secret''"] b
  have 2: "getFileContents ?h example_fs example_world ''secret'' = Fulfilled None"
    by (simp add: resolve_examples example_fs_def)
  from getFileContents_text_or_absent [of example_world ?h example_fs "''missing''"] c
  have 3: "getFileContents ?h example_fs example_world ''missing'' = Fulfilled None"
    by (simp add: resolve_examples example_fs_def)
  from getFileContents_text_or_absent [of example_world ?h example_fs "''docs''"] d
  have 4: "getFileContents ?h example_fs example_world ''docs'' = Fulfilled None"
    by (simp add: resolve_examples example_fs_def)
  from a b c d 1 2 3 4 show ?thesis by simp
qed

text \<open>
  C9. After \<open>setFileContents(P, T)\<close> has succeeded, \<open>getFileContents(P)\<close> on the
  resulting file system returns exactly \<open>T\<close>. (Texts are byte strings here, so every
  \<open>T\<close> of the model is an encoded text.)
\<close>

theorem write_then_read_roundtrip:
  "setFileContents h this w P T = (Fulfilled (), w')
   \<Longrightarrow> getFileContents h this w' P = Fulfilled (Some T)"
  by (auto simp: setFileContents_def fs_writeFile_def getFileContents_def fs_readFile_def
           split: option.splits node.splits)

theorem write_then_read_roundtrip_witness:
  "setFileContents (posix_host ''/home'') example_fs example_world ''LICENSE'' ''Apache-2.0''
     = (Fulfilled (), example_world\<lparr>files := (files example_world)(''/repo/LICENSE'' \<mapsto> File ''Apache-2.0'')\<rparr>)
   \<and> getFileContents (posix_host ''/home'') example_fs
         (example_world\<lparr>files := (files example_world)(''/repo/LICENSE'' \<mapsto> File ''Apache-2.0'')\<rparr>)
         ''LICENSE'' = Fulfilled (Some ''Apache-2.0'')"
proof -
  have w: "setFileContents (posix_host ''/home'') example_fs example_world ''LICENSE'' ''Apache-2.0''
     = (Fulfilled (), example_world\<lparr>files := (files example_world)(''/repo/LICENSE'' \<mapsto> File ''Apache-2.0'')\<rparr>)"
    by (simp add: setFileContents_def fs_writeFile_def resolve_examples example_fs_def example_world_def)
  from w write_then_read_roundtrip [OF w] show ?thesis by simp
qed

section \<open>The inclusion filter\<close>

subsection \<open>What \<open>normalizePath\<close> computes\<close>

lemma split_acc_not_Nil: "split_acc c cur s \<noteq> []"
  by (induction s arbitrary: cur) simp_all

lemma str_join_Cons: "ps \<noteq> [] \<Longrightarrow> str_join (p # ps) d = p @ d @ str_join ps d"
  by (cases ps) simp_all

lemma str_join_split_acc:
  "str_join (split_acc c cur s) [d] = cur @ map (\<lambda>x. if x = c then d else x) s"
proof (induction s arbitrary: cur)
  case Nil
  show ?case by simp
next
  case (Cons x s)
  show ?case
  proof (cases "x = c")
    case True
    then have "str_join (split_acc c cur (x # s)) [d] = cur @ [d] @ str_join (split_acc c [] s) [d]"
      by (simp add: str_join_Cons split_acc_not_Nil)
    with True Cons.IH [of "[]"] show ?thesis by simp
  next
    case False
    with Cons.IH [of "cur @ [x]"] show ?thesis by simp
  qed
qed

text \<open>Splitting at the separator and joining with a slash replaces every separator by a
  slash; so \<open>normalizePath\<close> computes the canonical form, on every host.\<close>

lemma normalizePath_canonical_form: "normalizePath h p = canonical_form h p"
  by (simp add: normalizePath_def canonical_form_def str_split_def str_join_split_acc)

lemma canonical_form_separator:
  assumes "platform_win32 h \<longleftrightarrow> path_sep h \<noteq> CHR ''/''"
  shows "canonical_form h p =
           (if path_sep h \<noteq> CHR ''/'' then map (\<lambda>c. if c = path_sep h then CHR ''/'' else c) p
            else p)"
  using assms by (simp add: canonical_form_def)

subsection \<open>The filter\<close>

text \<open>
  C2. With an empty \<open>filterPaths\<close> every path is included. With a non-empty one a path
  is included if and only if its canonical relative form (the path resolved against
  \<open>targetDir\<close>, made relative to it, every host separator turned into a slash) starts
  with the canonical form of some entry of \<open>filterPaths\<close>.
\<close>

theorem shouldInclude_prefix_filter:
  "(filterPaths this = [] \<longrightarrow> shouldInclude h this P)
   \<and> (filterPaths this \<noteq> [] \<longrightarrow>
        shouldInclude h this P =
          (\<exists>f \<in> set (filterPaths this).
              prefix (canonical_form h f)
                (canonical_form h
                   (path_relative h (targetDir this) (path_resolve h (targetDir this) P)))))"
  by (auto simp: shouldInclude_def list_ex_iff Let_def normalizePath_canonical_form)

lemma relative_examples:
  "path_relative (posix_host ''/home'') ''/repo'' ''/repo/docs/LICENSE.md'' = ''docs/LICENSE.md''"
  "path_relative (posix_host ''/home'') ''/repo'' ''/repo/LICENSE'' = ''LICENSE''"
  "path_relative (posix_host ''/home'') ''/repo'' ''/repo/link'' = ''link''"
  "path_relative (posix_host ''/home'') ''/repo'' ''/repo'' = []"
  by (simp_all add: posix_host_def posix_relative_def posix_resolve_def str_split_def segments_def)

lemma resolve_examples2:
  "path_resolve (posix_host ''/home'') ''/repo'' ''docs/LICENSE.md'' = ''/repo/docs/LICENSE.md''"
  "path_resolve (posix_host ''/home'') ''/repo'' ''./LICENSE'' = ''/repo/LICENSE''"
  "path_resolve (posix_host ''/home'') ''/repo'' ''link'' = ''/repo/link''"
  by (simp_all add: posix_host_def posix_resolve_def str_split_def)

lemma normalizePath_posix: "normalizePath (posix_host c) p = p"
  by (simp add: normalizePath_def posix_host_def)

lemma canonical_form_posix: "canonical_form (posix_host c) p = p"
  by (simp add: canonical_form_def posix_host_def)

lemma win32_examples:
  "path_resolve win32_example_host (targetDir win32_docs_fs) (''docs'' @ [backslash] @ ''a'')
     = ''C:'' @ [backslash] @ ''repo'' @ [backslash] @ ''docs'' @ [backslash] @ ''a''"
  "path_relative win32_example_host (targetDir win32_docs_fs)
     (''C:'' @ [backslash] @ ''repo'' @ [backslash] @ ''docs'' @ [backslash] @ ''a'')
     = ''docs'' @ [backslash] @ ''a''"
  "canonical_form win32_example_host (''docs'' @ [backslash] @ ''a'') = ''docs/a''"
  "canonical_form win32_example_host ''docs/'' = ''docs/''"
  "\<not> prefix ''docs/'' (''docs'' @ [backslash] @ ''a'')"
  by (simp_all add: win32_example_host_def win32_docs_fs_def canonical_form_def backslash_def)

theorem shouldInclude_prefix_filter_witness:
  "filterPaths example_fs = [] \<and> shouldInclude (posix_host ''/home'') example_fs ''LICENSE''
   \<and> filterPaths docs_fs \<noteq> []
   \<and> shouldInclude (posix_host ''/home'') docs_fs ''docs/LICENSE.md''
   \<and> \<not> shouldInclude (posix_host ''/home'') docs_fs ''LICENSE''
   \<and> filterPaths win32_docs_fs \<noteq> []
   \<and> canonical_form win32_example_host (''docs'' @ [backslash] @ ''a'') = ''docs/a''
   \<and> \<not> prefix ''docs/'' (''docs'' @ [backslash] @ ''a'')
   \<and> shouldInclude win32_example_host win32_docs_fs (''docs'' @ [backslash] @ ''a'')"
proof -
  let ?h = "posix_host ''/home''"
  have e: "filterPaths example_fs = []" and d: "filterPaths docs_fs \<noteq> []"
    and w: "filterPaths win32_docs_fs \<noteq> []"
    by (simp_all add: example_fs_def docs_fs_def win32_docs_fs_def)
  from shouldInclude_prefix_filter [of example_fs ?h "''LICENSE''"] e
  have 1: "shouldInclude ?h example_fs ''LICENSE''" by blast
  from shouldInclude_prefix_filter [of docs_fs ?h "''docs/LICENSE.md''"] d
  have 2: "shouldInclude ?h docs_fs ''docs/LICENSE.md''"
    by (simp add: docs_fs_def resolve_examples2 relative_examples canonical_form_posix)
  from shouldInclude_prefix_filter [of docs_fs ?h "''LICENSE''"] d
  have 3: "\<not> shouldInclude ?h docs_fs ''LICENSE''"
    by (simp add: docs_fs_def resolve_examples relative_examples canonical_form_posix)
  have fp: "filterPaths win32_docs_fs = [''docs/'']" by (simp add: win32_docs_fs_def)
  from shouldInclude_prefix_filter [of win32_docs_fs win32_example_host "''docs'' @ [backslash] @ ''a''"] w
  have 4: "shouldInclude win32_example_host win32_docs_fs (''docs'' @ [backslash] @ ''a'')"
    by (simp add: fp win32_examples del: append.simps)
  from e d w 1 2 3 4 win32_examples(3,5) show ?thesis by simp
qed


section \<open>Discovery\<close>

lemma first_or_undefined_simps:
  "first_or_undefined [] = None"
  "first_or_undefined (x # xs) = Some x"
  by (simp_all add: first_or_undefined_def)

text \<open>
  C8. \<open>findFirst\<close> fulfils with the first element of the sequence of \<open>findAll\<close> for
  the same globs and case flag when that sequence is not empty, and with \<open>undefined\<close>
  (no rejection) when it is empty; \<open>findFirstFile\<close> does the same over
  \<open>findAllFiles\<close>.
\<close>

theorem findFirst_is_head:
  "(findAll h this m G nc = Fulfilled [] \<longrightarrow> findFirst h this m G nc = Fulfilled None)
   \<and> (\<forall>x xs. findAll h this m G nc = Fulfilled (x # xs)
          \<longrightarrow> findFirst h this m G nc = Fulfilled (Some x))
   \<and> (findAllFiles h this m G nc = Fulfilled [] \<longrightarrow> findFirstFile h this m G nc = Fulfilled None)
   \<and> (\<forall>x xs. findAllFiles h this m G nc = Fulfilled (x # xs)
          \<longrightarrow> findFirstFile h this m G nc = Fulfilled (Some x))"
  by (simp add: findFirst_def findFirstFile_def first_or_undefined_simps)

lemma fixGlobs_posix: "fixGlobs (posix_host c) gs = gs"
  by (cases gs) (simp_all add: fixGlobs_def normalizePath_posix map_idI)

lemma example_fs_simps:
  "targetDir example_fs = ''/repo''" "filterPaths example_fs = []"
  by (simp_all add: example_fs_def)

lemma shouldInclude_example: "shouldInclude h example_fs p"
  by (simp add: shouldInclude_def example_fs_simps)

lemma findAll_examples:
  "findAll (posix_host ''/home'') example_fs example_matched (Pattern ''**'') None
     = Fulfilled [''LICENSE'', ''link'']"
  "findAll (posix_host ''/home'') example_fs example_matched (Pattern ''*.md'') None
     = Fulfilled []"
  by (simp_all add: findAll_def glob_def fixGlobs_posix example_matched_def promise_then_def
        normalizePath_posix shouldInclude_example)

lemma object_truthy_examples:
  "object_truthy [''link''] ''link''"
  "\<not> object_truthy [''link''] ''LICENSE''"
  "\<not> object_truthy [] ''LICENSE''"
  "\<not> object_truthy [] ''link''"
  by (simp_all add: object_truthy_def object_prototype_keys_def)

lemma findAllFiles_examples:
  "findAllFiles (posix_host ''/home'') example_fs example_matched (Pattern ''**'') None
     = Fulfilled [''LICENSE'']"
  "findAllFiles (posix_host ''/home'') example_fs example_matched (Pattern ''*.md'') None
     = Fulfilled []"
  "findAllFiles (posix_host ''/home'') example_fs example_matched (Pattern ''./**'') None
     = Fulfilled [''LICENSE'']"
  "findAllFiles (posix_host ''/home'') example_fs example_matched (Pattern ''*'') None
     = Fulfilled [''LICENSE'', ''link'']"
  by (simp_all add: findAllFiles_def glob_def fixGlobs_posix example_matched_def
        normalizePath_posix shouldInclude_example example_fs_simps example_links_def
        relative_examples object_truthy_examples)

theorem findFirst_is_head_witness:
  "findAll (posix_host ''/home'') example_fs example_matched (Pattern ''*.md'') None = Fulfilled []
   \<and> findFirst (posix_host ''/home'') example_fs example_matched (Pattern ''*.md'') None = Fulfilled None
   \<and> findAll (posix_host ''/home'') example_fs example_matched (Pattern ''**'') None
       = Fulfilled [''LICENSE'', ''link'']
   \<and> findFirst (posix_host ''/home'') example_fs example_matched (Pattern ''**'') None
       = Fulfilled (Some ''LICENSE'')
   \<and> findAllFiles (posix_host ''/home'') example_fs example_matched (Pattern ''*.md'') None = Fulfilled []
   \<and> findFirstFile (posix_host ''/home'') example_fs example_matched (Pattern ''*.md'') None = Fulfilled None
   \<and> findAllFiles (posix_host ''/home'') example_fs example_matched (Pattern ''**'') None
       = Fulfilled [''LICENSE'']
   \<and> findFirstFile (posix_host ''/home'') example_fs example_matched (Pattern ''**'') None
       = Fulfilled (Some ''LICENSE'')"
proof -
  let ?h = "posix_host ''/home''"
  note md = findFirst_is_head [of ?h example_fs example_matched "Pattern ''*.md''" None]
  note all = findFirst_is_head [of ?h example_fs example_matched "Pattern ''**''" None]
  from md findAll_examples(2)
  have 1: "findFirst ?h example_fs example_matched (Pattern ''*.md'') None = Fulfilled None"
    by blast
  from all findAll_examples(1)
  have 2: "findFirst ?h example_fs example_matched (Pattern ''**'') None = Fulfilled (Some ''LICENSE'')"
    by blast
  from md findAllFiles_examples(2)
  have 3: "findFirstFile ?h example_fs example_matched (Pattern ''*.md'') None = Fulfilled None"
    by blast
  from all findAllFiles_examples(1)
  have 4: "findFirstFile ?h example_fs example_matched (Pattern ''**'') None = Fulfilled (Some ''LICENSE'')"
    by blast
  from 1 2 3 4 findAll_examples findAllFiles_examples(1,2) show ?thesis by simp
qed

text \<open>What the symlink filter of \<open>findAllFiles\<close> does remove: a match whose normalized
  form is the normalized \<open>targetDir\<close>-relative form of a path reported as a link.\<close>

lemma findAllFiles_removes_matching_links:
  assumes run: "matched (fixGlobs h gs)
                  \<lparr> opt_cwd = targetDir this, opt_nocase = truthy nc, opt_nodir = True,
                    opt_symlinks = Some [] \<rparr> = Fulfilled (paths, links)"
    and link: "map_of links fullPath = Some True"
    and same: "normalizePath h filePath = normalizePath h (path_relative h (targetDir this) fullPath)"
    and res: "findAllFiles h this matched gs nc = Fulfilled result"
  shows "filePath \<notin> set result"
proof -
  from link have "fullPath \<in> set (map fst links)"
    by (metis map_of_SomeD image_eqI fst_conv set_map)
  with link same have "object_truthy
      (map (\<lambda>fullPath. normalizePath h (path_relative h (targetDir this) fullPath))
         (filter (\<lambda>fullPath. map_of links fullPath = Some True) (map fst links)))
      (normalizePath h filePath)"
    by (auto simp: object_truthy_def)
  with run res show ?thesis
    by (auto simp: findAllFiles_def glob_def Let_def)
qed

text \<open>What it cannot remove: when the engine reports no link, every match that passes
  the inclusion filter is returned (but for the names every object inherits).\<close>

lemma findAllFiles_nothing_reported:
  assumes "matched (fixGlobs h gs)
             \<lparr> opt_cwd = targetDir this, opt_nocase = truthy nc, opt_nodir = True,
               opt_symlinks = Some [] \<rparr> = Fulfilled (paths, [])"
  shows "findAllFiles h this matched gs nc =
           Fulfilled (filter (\<lambda>p. normalizePath h p \<notin> set object_prototype_keys)
                        (filter (shouldInclude h this) (map (normalizePath h) paths)))"
  using assms by (simp add: findAllFiles_def glob_def object_truthy_def)

text \<open>
  C1. The claim is that no path returned by \<open>findAllFiles\<close> refers to a symbolic link.
  The method removes the paths that glob expansion reported as links, and expansion
  reports one only when it meets it while expanding \<open>**\<close>. For the glob \<open>*\<close> on the
  example repository the engine matches \<open>LICENSE\<close> and \<open>link\<close> and reports nothing;
  \<open>link\<close> is a symbolic link of that repository, and it is returned.
\<close>

theorem findAllFiles_returns_unreported_symlink:
  "path_resolve (posix_host ''/home'') (targetDir example_fs) ''link''
     \<in> symbolic_links example_world
   \<and> example_matched (Pattern ''*'')
       \<lparr> opt_cwd = ''/repo'', opt_nocase = False, opt_nodir = True, opt_symlinks = Some [] \<rparr>
       = Fulfilled ([''LICENSE'', ''link''], [])
   \<and> findAllFiles (posix_host ''/home'') example_fs example_matched (Pattern ''*'') None
       = Fulfilled [''LICENSE'', ''link'']"
  by (simp add: findAllFiles_examples resolve_examples2 example_fs_simps example_matched_def
        example_world_def)

section \<open>Binary detection\<close>

lemma isBinaryFile_returned:
  "probe (path_resolve h (targetDir this) P) = Returned p \<Longrightarrow> isBinaryFile h this probe P = p"
  by (simp add: isBinaryFile_def)

lemma isBinaryFile_threw:
  "probe (path_resolve h (targetDir this) P) = Threw e \<Longrightarrow>
   isBinaryFile h this probe P =
     (if str_includes (message e) ''ENOENT'' then Fulfilled False else Rejected e)"
  by (simp add: isBinaryFile_def)

lemma ENOENT_message: "str_includes (message (ENOENT syscall p)) ''ENOENT''"
  by (simp add: ENOENT_def uv_error_def)

text \<open>
  C5. The claim is that \<open>isBinaryFile\<close> returns \<open>false\<close> when the probe fails because
  the path does not exist. The probe reports that failure through the promise it
  returns (its message contains \<open>ENOENT\<close>), the method returns the promise without
  awaiting it, and so the method rejects with the probe's error instead.
\<close>

theorem isBinaryFile_rejects_on_missing_path:
  "files example_world (path_resolve (posix_host ''/home'') (targetDir example_fs) ''missing'') = None
   \<and> example_probe ''/repo/missing'' = Returned (Rejected (ENOENT ''stat'' ''/repo/missing''))
   \<and> str_includes (message (ENOENT ''stat'' ''/repo/missing'')) ''ENOENT''
   \<and> isBinaryFile (posix_host ''/home'') example_fs example_probe ''missing''
       = Rejected (ENOENT ''stat'' ''/repo/missing'')"
  by (simp add: isBinaryFile_def example_probe_def example_world_def example_fs_simps
        resolve_examples ENOENT_message)

section \<open>The bounded line reader\<close>

subsection \<open>Strings\<close>

lemma indexOf_None: "indexOf s c i = None \<longleftrightarrow> c \<notin> set (drop i s)"
  by (simp add: indexOf_def)

lemma indexOf_Some:
  assumes "indexOf s c i = Some idx"
  shows "drop i s = substring s i idx @ c # drop (idx + 1) s"
    and "c \<notin> set (substring s i idx)"
proof -
  let ?rest = "drop i s"
  let ?P = "\<lambda>x. x \<noteq> c"
  let ?n = "length (takeWhile ?P ?rest)"
  have mem: "c \<in> set ?rest"
  proof (rule ccontr)
    assume "c \<notin> set ?rest"
    then have "indexOf s c i = None" by (simp only: indexOf_def if_False)
    with assms show False by simp
  qed
  then have "indexOf s c i = Some (i + ?n)" by (simp only: indexOf_def if_True)
  with assms have idx: "idx = i + ?n" by (simp only: option.inject)
  have sub: "substring s i idx = takeWhile ?P ?rest"
    using idx by (simp add: substring_def takeWhile_eq_take [symmetric])
  from mem have ne: "dropWhile ?P ?rest \<noteq> []" by simp
  then have "\<not> ?P (hd (dropWhile ?P ?rest))" by (rule hd_dropWhile)
  with ne have dw: "dropWhile ?P ?rest = c # tl (dropWhile ?P ?rest)"
    by (cases "dropWhile ?P ?rest") simp_all
  have "tl (dropWhile ?P ?rest) = drop (Suc ?n) ?rest"
    by (simp add: dropWhile_eq_drop drop_Suc tl_drop)
  also have "\<dots> = drop (idx + 1) s" using idx by (simp add: add.commute)
  finally have tl: "tl (dropWhile ?P ?rest) = drop (idx + 1) s" .
  have "?rest = takeWhile ?P ?rest @ dropWhile ?P ?rest" by simp
  with sub dw tl show "drop i s = substring s i idx @ c # drop (idx + 1) s" by metis
  show "c \<notin> set (substring s i idx)"
    unfolding sub by (auto dest: set_takeWhileD)
qed

subsection \<open>Newline-terminated lines\<close>

lemma lines_from_no_newline: "newline \<notin> set s \<Longrightarrow> lines_from cur s = []"
  by (induction s arbitrary: cur) auto

lemma lines_from_break:
  "newline \<notin> set a \<Longrightarrow> lines_from cur (a @ newline # b) = (cur @ a @ [newline]) # lines_from [] b"
  by (induction a arbitrary: cur) auto

lemma terminated_lines_no_newline: "newline \<notin> set s \<Longrightarrow> terminated_lines s = []"
  by (simp add: terminated_lines_def lines_from_no_newline)

lemma terminated_lines_break:
  "newline \<notin> set a \<Longrightarrow> terminated_lines (a @ newline # b) = (a @ [newline]) # terminated_lines b"
  by (simp add: terminated_lines_def lines_from_break)

lemma first_lines_no_newline: "newline \<notin> set s \<Longrightarrow> first_lines k s = []"
  by (simp add: first_lines_def terminated_lines_no_newline)

lemma first_lines_0: "first_lines 0 s = []"
  by (simp add: first_lines_def)

lemma first_lines_break:
  "newline \<notin> set a \<Longrightarrow>
   first_lines (Suc k) (a @ newline # b) = a @ [newline] @ first_lines k b"
  by (simp add: first_lines_def terminated_lines_break)

lemma first_lines_all:
  "length (terminated_lines s) \<le> k \<Longrightarrow> first_lines k s = concat (terminated_lines s)"
  by (simp add: first_lines_def)

subsection \<open>The inner loop\<close>

lemma scan_correct:
  assumes "int ln < N"
  shows "case scan L i lines ln N of
           Return r \<Rightarrow> \<forall>X. r = lines @ first_lines (nat (N - int ln)) (drop i L @ X)
         | Continue lo' lines' ln' \<Rightarrow>
             newline \<notin> set lo' \<and> int ln' < N \<and>
             (\<forall>X. lines' @ first_lines (nat (N - int ln')) (lo' @ X)
                  = lines @ first_lines (nat (N - int ln)) (drop i L @ X))"
  using assms
proof (induction L i lines ln N rule: scan.induct)
  case (1 L i lines ln N)
  show ?case
  proof (cases "indexOf L newline i")
    case None
    then have "newline \<notin> set (drop i L)" by (simp add: indexOf_None)
    with None "1.prems" show ?thesis by (subst scan.simps) simp
  next
    case (Some idx)
    let ?a = "substring L i idx"
    let ?b = "drop (idx + 1) L"
    from indexOf_Some [OF Some]
    have dec: "drop i L = ?a @ newline # ?b" and a: "newline \<notin> set ?a" by simp_all
    from "1.prems" obtain k where k: "nat (N - int ln) = Suc k"
      by (cases "nat (N - int ln)") auto
    have fl: "first_lines (nat (N - int ln)) (drop i L @ X) = ?a @ [newline] @ first_lines k (?b @ X)" for X
      using first_lines_break [OF a, of k "?b @ X"] by (simp add: dec k)
    show ?thesis
    proof (cases "int (ln + 1) \<ge> N")
      case True
      with k have "k = 0" by simp
      with Some True fl show ?thesis
        by (subst scan.simps) (simp add: first_lines_0)
    next
      case False
      then have lt: "int (ln + 1) < N" by simp
      have k': "nat (N - int (ln + 1)) = k" using k by simp
      from "1.IH" [OF Some False lt] Some False fl k' show ?thesis
        by (subst scan.simps) (simp split: scan_result.splits)
    qed
  qed
qed

subsection \<open>The outer loop\<close>

lemma fd_close_unread [simp]: "fd_close (fd\<lparr>unread := u\<rparr>) w = fd_close fd w"
  by (simp add: fd_close_def)

lemma read_loop_regular:
  assumes "\<not> fd_dir fd" and "newline \<notin> set lo" and "int ln < N"
  shows "read_loop fd lo lines ln N w =
           (Fulfilled (Some (lines @ first_lines (nat (N - int ln)) (lo @ unread fd))),
            fd_close fd w)"
  using assms
proof (induction fd lo lines ln N w rule: read_loop.induct)
  case (1 fd lo lines ln N w)
  let ?bytes = "take bufferSize (unread fd)"
  let ?fd' = "fd\<lparr>unread := drop bufferSize (unread fd)\<rparr>"
  have rd: "fd_read fd bufferSize = Fulfilled (?bytes, ?fd')"
    using "1.prems"(1) by (simp add: fd_read_def)
  show ?case
  proof (cases "length ?bytes = 0")
    case True
    then have "unread fd = []" by (auto simp: bufferSize_def min_def split: if_splits)
    with rd True "1.prems"(2) show ?thesis
      by (subst read_loop.simps) (simp add: first_lines_no_newline)
  next
    case False
    note sc = scan_correct [OF "1.prems"(3), where L = "lo @ ?bytes" and i = 0 and lines = lines]
    show ?thesis
    proof (cases "scan (lo @ ?bytes) 0 lines ln N")
      case (Return r)
      with sc have "\<forall>X. r = lines @ first_lines (nat (N - int ln)) (lo @ ?bytes @ X)"
        by simp
      then have "r = lines @ first_lines (nat (N - int ln)) (lo @ ?bytes @ drop bufferSize (unread fd))"
        by (rule spec)
      with rd False Return show ?thesis
        by (subst read_loop.simps) simp
    next
      case (Continue lo' lines' ln')
      with sc have lo': "newline \<notin> set lo'" and ln': "int ln' < N"
        and all: "\<forall>X. lines' @ first_lines (nat (N - int ln')) (lo' @ X)
                 = lines @ first_lines (nat (N - int ln)) (lo @ ?bytes @ X)"
        by simp_all
      from all have eq: "lines' @ first_lines (nat (N - int ln')) (lo' @ drop bufferSize (unread fd))
                 = lines @ first_lines (nat (N - int ln)) (lo @ ?bytes @ drop bufferSize (unread fd))"
        by (rule spec)
      have fd': "\<not> fd_dir ?fd'" using "1.prems"(1) by simp
      from "1.IH" [OF rd refl False Continue fd' lo' ln'] eq rd False Continue show ?thesis
        by (subst read_loop.simps) simp
    qed
  qed
qed

lemma read_loop_directory:
  "fd_dir fd \<Longrightarrow> read_loop fd lo lines ln N w = (Rejected EISDIR_read, w)"
  by (subst read_loop.simps) (simp add: fd_read_def)

text \<open>A requested count below 1 behaves as 1: the first newline found ends the read.\<close>

lemma scan_below_1: "N \<le> 1 \<Longrightarrow> scan L i lines ln N = scan L i lines ln 1"
  by (subst (1 2) scan.simps) (simp split: option.split)

lemma read_loop_below_1:
  "N \<le> 1 \<Longrightarrow> read_loop fd lo lines ln N w = read_loop fd lo lines ln 1 w"
proof (induction fd lo lines ln N w rule: read_loop.induct)
  case (1 fd lo lines ln N w)
  show ?case
    apply (subst (1 2) read_loop.simps)
    using 1 by (auto simp: scan_below_1 [of N] split: promise.splits scan_result.splits)
qed

subsection \<open>The method\<close>

lemma fs_open_simps:
  "files w p = None \<Longrightarrow> fs_open w p =
     (Rejected (if below_file w p then ENOTDIR ''open'' p else ENOENT ''open'' p), w)"
  "files w p = Some (Faulty e) \<Longrightarrow> fs_open w p = (Rejected e, w)"
  "files w p = Some Dir \<Longrightarrow> fs_open w p =
     (Fulfilled \<lparr>fd_num = fresh_fd (open_fds w), fd_dir = True, unread = []\<rparr>,
      w\<lparr>open_fds := fresh_fd (open_fds w) # open_fds w\<rparr>)"
  "files w p = Some (File t) \<Longrightarrow> fs_open w p =
     (Fulfilled \<lparr>fd_num = fresh_fd (open_fds w), fd_dir = False, unread = t\<rparr>,
      w\<lparr>open_fds := fresh_fd (open_fds w) # open_fds w\<rparr>)"
  by (simp_all add: fs_open_def)

lemma getFileLines_regular:
  assumes "files w (path_resolve h (targetDir this) (path_resolve h (targetDir this) P)) = Some (File c)"
  shows "getFileLines h this w P N = (Fulfilled (Some (first_lines (nat (max 1 N)) c)), w)"
proof -
  let ?fd = "\<lparr>fd_num = fresh_fd (open_fds w), fd_dir = False, unread = c\<rparr>"
  let ?w' = "w\<lparr>open_fds := fresh_fd (open_fds w) # open_fds w\<rparr>"
  have loop: "read_loop ?fd [] [] 0 (max 1 N) ?w' =
      (Fulfilled (Some ([] @ first_lines (nat (max 1 N - int 0)) ([] @ unread ?fd))), fd_close ?fd ?w')"
    by (rule read_loop_regular) simp_all
  have "read_loop ?fd [] [] 0 N ?w' = read_loop ?fd [] [] 0 (max 1 N) ?w'"
  proof (cases "N \<le> 1")
    case True
    then have "max 1 N = 1" by simp
    with True show ?thesis by (simp add: read_loop_below_1 [of N])
  next
    case False
    then have "max 1 N = N" by simp
    then show ?thesis by simp
  qed
  with loop have "read_loop ?fd [] [] 0 N ?w' = (Fulfilled (Some (first_lines (nat (max 1 N)) c)), w)"
    by (simp add: fd_close_def)
  with assms show ?thesis
    by (simp add: getFileLines_def fs_open_simps)
qed

lemma getFileLines_open_rejected:
  assumes "fst (fs_open w (path_resolve h (targetDir this) (path_resolve h (targetDir this) P)))
             = Rejected e"
  shows "fst (getFileLines h this w P N) =
           (if str_includes (message e) ''ENOENT'' then Fulfilled None else Rejected e)"
  using assms
  by (cases "fs_open w (path_resolve h (targetDir this) (path_resolve h (targetDir this) P))")
     (simp add: getFileLines_def)

lemma getFileLines_unmapped:
  assumes "files w (path_resolve h (targetDir this) (path_resolve h (targetDir this) P)) = None"
  shows "getFileLines h this w P N =
           (let file = path_resolve h (targetDir this) (path_resolve h (targetDir this) P);
                e = (if below_file w file then ENOTDIR ''open'' file else ENOENT ''open'' file)
            in (if str_includes (message e) ''ENOENT'' then Fulfilled None else Rejected e, w))"
  using assms by (simp add: getFileLines_def fs_open_simps Let_def)

lemma getFileLines_missing:
  assumes "files w (path_resolve h (targetDir this) (path_resolve h (targetDir this) P)) = None"
    and "\<not> below_file w (path_resolve h (targetDir this) (path_resolve h (targetDir this) P))"
  shows "getFileLines h this w P N = (Fulfilled None, w)"
  using assms by (simp add: getFileLines_def fs_open_simps ENOENT_message)

lemma getFileLines_faulty:
  assumes "files w (path_resolve h (targetDir this) (path_resolve h (targetDir this) P)) = Some (Faulty e)"
  shows "getFileLines h this w P N =
           (if str_includes (message e) ''ENOENT'' then Fulfilled None else Rejected e, w)"
  using assms by (simp add: getFileLines_def fs_open_simps)

lemma getFileLines_directory:
  assumes "files w (path_resolve h (targetDir this) (path_resolve h (targetDir this) P)) = Some Dir"
  shows "getFileLines h this w P N =
           (Rejected EISDIR_read, w\<lparr>open_fds := fresh_fd (open_fds w) # open_fds w\<rparr>)"
  using assms by (simp add: getFileLines_def fs_open_simps read_loop_directory)

lemma notes_lines:
  "terminated_lines notes_text = [''one'' @ [newline], ''two'' @ [newline]]"
  by (simp add: terminated_lines_def notes_text_def newline_def)

lemma example_files:
  "files example_world ''/repo/NOTES'' = Some (File notes_text)"
  "files example_world ''/repo/missing'' = None"
  "files example_world ''/repo/docs'' = Some Dir"
  "files example_world ''/repo/LICENSE/x'' = None"
  by (simp_all add: example_world_def)

lemma example_below_file:
  "\<not> below_file example_world ''/repo/missing''"
  "below_file example_world ''/repo/LICENSE/x''"
  by (simp_all add: below_file_def is_file_def example_world_def)

lemma ENOTDIR_example:
  "\<not> str_includes (message (ENOTDIR ''open'' ''/repo/LICENSE/x'')) ''ENOENT''"
  by (simp add: ENOTDIR_def uv_error_def)

text \<open>A file of 1023 bytes followed by a two-byte character has that character cut by
  the first chunk boundary; with a newline before the character it is not cut.\<close>

lemma chunk_aligned_examples:
  "chunk_aligned (replicate 1023 CHR ''a'' @ [CHR 0x0A, CHR 0xC3, CHR 0xA9, CHR 0x0A])"
  "\<not> chunk_aligned (replicate 1023 CHR ''a'' @ [CHR 0xC3, CHR 0xA9, CHR 0x0A])"
  by (simp_all add: chunk_aligned_def bufferSize_def continuation_byte_def nth_append)

text \<open>
  C4, as stated, fails for a path that does not exist because it continues below a
  regular file: \<open>LICENSE\<close> is a file of the example repository, nothing exists at
  \<open>LICENSE/x\<close>, opening it fails with \<open>ENOTDIR\<close>, the message does not contain
  \<open>ENOENT\<close>, and the method rejects instead of returning \<open>undefined\<close>.
\<close>

theorem getFileLines_rejects_below_regular_file:
  "files example_world
     (path_resolve (posix_host ''/home'') (targetDir example_fs)
        (path_resolve (posix_host ''/home'') (targetDir example_fs) ''LICENSE/x'')) = None
   \<and> fst (getFileLines (posix_host ''/home'') example_fs example_world ''LICENSE/x'' 1)
       = Rejected (ENOTDIR ''open'' ''/repo/LICENSE/x'')
   \<and> fst (getFileLines (posix_host ''/home'') example_fs example_world ''LICENSE/x'' 1)
       \<noteq> Fulfilled None"
  by (simp add: getFileLines_def fs_open_simps example_fs_simps resolve_examples example_files
        example_below_file ENOTDIR_example)

text \<open>
  C4. For a requested count \<open>N \<ge> 1\<close> and the file the method opens (the path
  resolved against \<open>targetDir\<close> twice, as the source does; on a POSIX host that is the
  path resolved once, see the last section), provided no chunk of 1024 bytes ends
  inside a multi-byte character: when the file has exactly \<open>N\<close> newline-terminated
  lines the method fulfils with all \<open>N\<close> of them; when \<open>N\<close> is greater than the number
  of lines it fulfils with all the lines there are, without failure. When nothing
  exists at the path and the path does not continue below a regular file, the method
  fulfils with \<open>undefined\<close>. In general a failure to open gives \<open>undefined\<close> exactly
  when its message contains \<open>ENOENT\<close>, and is passed on to the caller otherwise.
\<close>

theorem getFileLines_first_lines:
  assumes "1 \<le> N"
  shows
  "(\<forall>c. files w (path_resolve h (targetDir this) (path_resolve h (targetDir this) P)) = Some (File c)
         \<and> chunk_aligned c \<and> int (length (terminated_lines c)) = N
       \<longrightarrow> fst (getFileLines h this w P N) = Fulfilled (Some (concat (terminated_lines c))))
   \<and> (\<forall>c. files w (path_resolve h (targetDir this) (path_resolve h (targetDir this) P)) = Some (File c)
         \<and> chunk_aligned c \<and> int (length (terminated_lines c)) < N
       \<longrightarrow> fst (getFileLines h this w P N) = Fulfilled (Some (concat (terminated_lines c))))
   \<and> (files w (path_resolve h (targetDir this) (path_resolve h (targetDir this) P)) = None
         \<and> \<not> below_file w (path_resolve h (targetDir this) (path_resolve h (targetDir this) P))
       \<longrightarrow> fst (getFileLines h this w P N) = Fulfilled None)
   \<and> (\<forall>e. fst (fs_open w (path_resolve h (targetDir this) (path_resolve h (targetDir this) P)))
              = Rejected e
       \<longrightarrow> fst (getFileLines h this w P N) =
             (if str_includes (message e) ''ENOENT'' then Fulfilled None else Rejected e))"
proof -
  have "fst (getFileLines h this w P N) = Fulfilled (Some (concat (terminated_lines c)))"
    if fl: "files w (path_resolve h (targetDir this) (path_resolve h (targetDir this) P)) = Some (File c)"
      and len: "int (length (terminated_lines c)) \<le> N" for c
  proof -
    from assms len have "length (terminated_lines c) \<le> nat (max 1 N)" by simp
    then have "first_lines (nat (max 1 N)) c = concat (terminated_lines c)"
      by (rule first_lines_all)
    with getFileLines_regular [OF fl, of N] show ?thesis by simp
  qed
  then show ?thesis
    by (auto simp: getFileLines_missing getFileLines_open_rejected)
qed

theorem getFileLines_first_lines_witness:
  "files example_world
     (path_resolve (posix_host ''/home'') (targetDir example_fs)
        (path_resolve (posix_host ''/home'') (targetDir example_fs) ''NOTES'')) = Some (File notes_text)
   \<and> chunk_aligned notes_text
   \<and> int (length (terminated_lines notes_text)) = 2
   \<and> fst (getFileLines (posix_host ''/home'') example_fs example_world ''NOTES'' 2)
     = Fulfilled (Some (''one'' @ [newline] @ ''two'' @ [newline]))
   \<and> int (length (terminated_lines notes_text)) < 5
   \<and> fst (getFileLines (posix_host ''/home'') example_fs example_world ''NOTES'' 5)
     = Fulfilled (Some (''one'' @ [newline] @ ''two'' @ [newline]))
   \<and> files example_world
     (path_resolve (posix_host ''/home'') (targetDir example_fs)
        (path_resolve (posix_host ''/home'') (targetDir example_fs) ''missing'')) = None
   \<and> \<not> below_file example_world
     (path_resolve (posix_host ''/home'') (targetDir example_fs)
        (path_resolve (posix_host ''/home'') (targetDir example_fs) ''missing''))
   \<and> fst (getFileLines (posix_host ''/home'') example_fs example_world ''missing'' 2)
     = Fulfilled None
   \<and> fst (fs_open example_world
     (path_resolve (posix_host ''/home'') (targetDir example_fs)
        (path_resolve (posix_host ''/home'') (targetDir example_fs) ''LICENSE/x'')))
     = Rejected (ENOTDIR ''open'' ''/repo/LICENSE/x'')
   \<and> fst (getFileLines (posix_host ''/home'') example_fs example_world ''LICENSE/x'' 2)
     = Rejected (ENOTDIR ''open'' ''/repo/LICENSE/x'')"
proof -
  let ?h = "posix_host ''/home''"
  have two: "(1::int) \<le> 2" and five: "(1::int) \<le> 5" by simp_all
  have nfile: "files example_world
     (path_resolve ?h (targetDir example_fs) (path_resolve ?h (targetDir example_fs) ''NOTES''))
       = Some (File notes_text)"
    and missing: "files example_world
     (path_resolve ?h (targetDir example_fs) (path_resolve ?h (targetDir example_fs) ''missing''))
       = None"
    and nobelow: "\<not> below_file example_world
     (path_resolve ?h (targetDir example_fs) (path_resolve ?h (targetDir example_fs) ''missing''))"
    and notdir: "fst (fs_open example_world
     (path_resolve ?h (targetDir example_fs) (path_resolve ?h (targetDir example_fs) ''LICENSE/x'')))
       = Rejected (ENOTDIR ''open'' ''/repo/LICENSE/x'')"
    by (simp_all add: example_fs_simps resolve_examples example_files example_below_file
          fs_open_simps)
  have aligned: "chunk_aligned notes_text"
    by (simp add: chunk_aligned_def notes_text_def bufferSize_def)
  have len: "int (length (terminated_lines notes_text)) = 2" by (simp add: notes_lines)
  from getFileLines_first_lines [OF two, of example_world ?h example_fs "''NOTES''"]
    nfile aligned len
  have 1: "fst (getFileLines ?h example_fs example_world ''NOTES'' 2)
             = Fulfilled (Some (''one'' @ [newline] @ ''two'' @ [newline]))"
    by (simp add: notes_lines)
  from getFileLines_first_lines [OF five, of example_world ?h example_fs "''NOTES''"]
    nfile aligned len
  have 2: "fst (getFileLines ?h example_fs example_world ''NOTES'' 5)
             = Fulfilled (Some (''one'' @ [newline] @ ''two'' @ [newline]))"
    by (simp add: notes_lines)
  from getFileLines_first_lines [OF two, of example_world ?h example_fs "''missing''"]
    missing nobelow
  have 3: "fst (getFileLines ?h example_fs example_world ''missing'' 2) = Fulfilled None"
    by simp
  from getFileLines_first_lines [OF two, of example_world ?h example_fs "''LICENSE/x''"] notdir
  have 4: "fst (getFileLines ?h example_fs example_world ''LICENSE/x'' 2)
             = Rejected (ENOTDIR ''open'' ''/repo/LICENSE/x'')"
    by (simp add: ENOTDIR_example)
  from nfile aligned missing nobelow notdir len 1 2 3 4 show ?thesis by simp
qed

subsection \<open>Unterminated content\<close>

lemma unterminated_tail_no_newline: "newline \<notin> set s \<Longrightarrow> unterminated_tail s = s"
proof -
  assume "newline \<notin> set s"
  then have "takeWhile (\<lambda>x. x \<noteq> newline) (rev s) = rev s"
    by auto
  then show ?thesis by (simp only: unterminated_tail_def rev_rev_ident)
qed

lemma unterminated_tail_break: "unterminated_tail (a @ newline # b) = unterminated_tail b"
proof -
  let ?P = "\<lambda>x. x \<noteq> newline"
  have "takeWhile ?P (rev b @ newline # rev a) = takeWhile ?P (rev b)"
  proof (cases "newline \<in> set b")
    case True
    then have "newline \<in> set (rev b)" by simp
    then show ?thesis by (rule takeWhile_append1) simp
  next
    case False
    then have all: "\<And>x. x \<in> set (rev b) \<Longrightarrow> ?P x" by auto
    then have "takeWhile ?P (rev b @ newline # rev a) = rev b @ takeWhile ?P (newline # rev a)"
      by (rule takeWhile_append2)
    moreover from all have "takeWhile ?P (rev b) = rev b"
      by auto
    ultimately show ?thesis by (simp del: takeWhile_eq_all_conv)
  qed
  then show ?thesis by (simp add: unterminated_tail_def)
qed

lemma lines_from_tail:
  "newline \<notin> set cur \<Longrightarrow> concat (lines_from cur s) @ unterminated_tail (cur @ s) = cur @ s"
proof (induction s arbitrary: cur)
  case Nil
  then show ?case by (simp add: unterminated_tail_no_newline)
next
  case (Cons x s)
  show ?case
  proof (cases "x = newline")
    case True
    with Cons.IH [of "[]"] show ?thesis by (simp add: unterminated_tail_break)
  next
    case False
    with Cons.prems Cons.IH [of "cur @ [x]"] show ?thesis by simp
  qed
qed

lemma terminated_lines_tail: "concat (terminated_lines c) @ unterminated_tail c = c"
  using lines_from_tail [of "[]" c] by (simp add: terminated_lines_def)

lemma lines_from_end: "l \<in> set (lines_from cur s) \<Longrightarrow> l \<noteq> [] \<and> last l = newline"
  by (induction s arbitrary: cur) (auto split: if_splits)

lemma concat_last:
  "(\<And>l. l \<in> set ls \<Longrightarrow> l \<noteq> [] \<and> last l = x) \<Longrightarrow> concat ls = [] \<or> last (concat ls) = x"
proof (induction ls)
  case Nil
  then show ?case by simp
next
  case (Cons a ls)
  then have a: "a \<noteq> []" "last a = x" and rest: "concat ls = [] \<or> last (concat ls) = x"
    by simp_all
  show ?case
  proof (cases "concat ls = []")
    case True
    with a show ?thesis by simp
  next
    case False
    with rest have "last (concat ls) = x" by blast
    with False show ?thesis by (simp del: concat_eq_Nil_conv)
  qed
qed

lemma first_lines_end: "first_lines k c = [] \<or> last (first_lines k c) = newline"
  unfolding first_lines_def
  by (rule concat_last) (auto simp: terminated_lines_def dest: in_set_takeD lines_from_end)

lemma first_lines_prefix: "prefix (first_lines k c) (concat (terminated_lines c))"
proof -
  have "concat (terminated_lines c) =
          concat (take k (terminated_lines c)) @ concat (drop k (terminated_lines c))"
    by (metis append_take_drop_id concat_append)
  then show ?thesis by (simp add: first_lines_def prefix_def)
qed

text \<open>
  C10. Whatever the file and the requested count, a string returned by
  \<open>getFileLines\<close> is empty or ends with a newline, and it lies within the part of the
  file that ends at its last newline: the content after the last newline (a final
  unterminated line) is never part of the result.
\<close>

theorem getFileLines_only_terminated_lines:
  assumes "fst (getFileLines h this w P N) = Fulfilled (Some r)"
  shows "(r = [] \<or> last r = newline)
         \<and> (\<exists>c. files w (path_resolve h (targetDir this) (path_resolve h (targetDir this) P))
                   = Some (File c)
                \<and> c = concat (terminated_lines c) @ unterminated_tail c
                \<and> newline \<notin> set (unterminated_tail c)
                \<and> prefix r (concat (terminated_lines c)))"
proof (cases "files w (path_resolve h (targetDir this) (path_resolve h (targetDir this) P))")
  case None
  from getFileLines_unmapped [OF None, of N] assms show ?thesis
    by (simp add: Let_def split: if_splits)
next
  case (Some n)
  show ?thesis
  proof (cases n)
    case (File c)
    with Some have fl: "files w (path_resolve h (targetDir this) (path_resolve h (targetDir this) P)) = Some (File c)"
      by simp
    from getFileLines_regular [OF fl, of N] assms have r: "r = first_lines (nat (max 1 N)) c"
      by simp
    have "newline \<notin> set (unterminated_tail c)"
      by (auto simp: unterminated_tail_def dest: set_takeWhileD)
    with fl r show ?thesis
      using first_lines_end [of "nat (max 1 N)" c] first_lines_prefix [of "nat (max 1 N)" c]
      by (simp add: terminated_lines_tail)
  next
    case Dir
    with Some getFileLines_directory [of w h this P N] assms show ?thesis by simp
  next
    case (Faulty e)
    with Some getFileLines_faulty [of w h this P e N] assms show ?thesis
      by (simp split: if_splits)
  qed
qed

theorem getFileLines_only_terminated_lines_witness:
  "fst (getFileLines (posix_host ''/home'') example_fs example_world ''NOTES'' 1)
     = Fulfilled (Some (''one'' @ [newline]))
   \<and> last (''one'' @ [newline]) = newline
   \<and> unterminated_tail notes_text = ''rest''
   \<and> prefix (''one'' @ [newline]) (concat (terminated_lines notes_text))"
proof -
  let ?h = "posix_host ''/home''"
  have run: "fst (getFileLines ?h example_fs example_world ''NOTES'' 1)
               = Fulfilled (Some (''one'' @ [newline]))"
    using getFileLines_regular [of example_world ?h example_fs "''NOTES''" notes_text 1]
    by (simp add: example_fs_simps resolve_examples example_files first_lines_def notes_lines)
  have tail: "unterminated_tail notes_text = ''rest''"
    by (simp add: unterminated_tail_def notes_text_def newline_def)
  from getFileLines_only_terminated_lines [OF run] run tail show ?thesis
    by (simp add: example_fs_simps resolve_examples example_files)
qed

subsection \<open>The file handle\<close>

lemma getFileLines_releases:
  assumes "files w (path_resolve h (targetDir this) (path_resolve h (targetDir this) P)) \<noteq> Some Dir"
  shows "snd (getFileLines h this w P N) = w"
proof (cases "files w (path_resolve h (targetDir this) (path_resolve h (targetDir this) P))")
  case None
  from getFileLines_unmapped [OF None, of N] show ?thesis by (simp add: Let_def)
next
  case (Some n)
  with assms show ?thesis
    by (cases n) (simp_all add: getFileLines_regular getFileLines_faulty)
qed

text \<open>
  C3. The claim is that the handle is closed on every exit path, also when a read
  raises an error. The loop is not inside \<open>try\<close>/\<open>finally\<close>: when \<open>fd.read\<close>
  rejects, the method rejects at the \<open>await\<close> and no \<open>fd.close()\<close> runs. On the
  example repository \<open>docs\<close> is a directory: \<open>open\<close> succeeds, the first \<open>read\<close> fails
  with \<open>EISDIR\<close>, and descriptor 1 stays open. (On every other path the handle is
  released, lemma \<open>getFileLines_releases\<close>.)
\<close>

theorem getFileLines_leaks_handle_on_read_error:
  "files example_world
     (path_resolve (posix_host ''/home'') (targetDir example_fs)
        (path_resolve (posix_host ''/home'') (targetDir example_fs) ''docs'')) = Some Dir
   \<and> open_fds example_world = []
   \<and> getFileLines (posix_host ''/home'') example_fs example_world ''docs'' 1
       = (Rejected EISDIR_read, example_world\<lparr>open_fds := [1]\<rparr>)"
proof -
  have dir: "files example_world
     (path_resolve (posix_host ''/home'') (targetDir example_fs)
        (path_resolve (posix_host ''/home'') (targetDir example_fs) ''docs'')) = Some Dir"
    by (simp add: example_fs_simps resolve_examples example_files)
  have fds: "open_fds example_world = []" by (simp add: example_world_def)
  from getFileLines_directory [OF dir, of 1] dir fds show ?thesis
    by (simp add: fresh_fd_def)
qed

section \<open>Resolving twice on a POSIX host\<close>

text \<open>
  \<open>getFileLines\<close> resolves its path against \<open>targetDir\<close> twice, the other methods
  once. With an absolute working directory (what \<open>process.cwd()\<close> returns) the second
  resolution changes nothing, so all methods address the same file.
\<close>

lemma resolve_prepend_absolute:
  "\<exists>p \<in> set ps. p \<noteq> [] \<and> hd p = CHR ''/''
   \<Longrightarrow> resolve_prepend ps \<noteq> [] \<and> hd (resolve_prepend ps) = CHR ''/''"
proof (induction ps)
  case Nil
  then show ?case by simp
next
  case (Cons q ps)
  show ?case
  proof (cases "q \<noteq> [] \<and> hd q = CHR ''/''")
    case True
    then show ?thesis by simp
  next
    case False
    with Cons.prems have "\<exists>p \<in> set ps. p \<noteq> [] \<and> hd p = CHR ''/''" by auto
    from Cons.IH [OF this] False show ?thesis by (auto simp: hd_append)
  qed
qed

lemma split_acc_no_sep:
  "c \<notin> set cur \<Longrightarrow> \<forall>x \<in> set (split_acc c cur s). c \<notin> set x"
proof (induction s arbitrary: cur)
  case Nil
  then show ?case by simp
next
  case (Cons a s)
  from Cons.IH [of "[]"] Cons.IH [of "cur @ [a]"] Cons.prems show ?case by simp
qed

lemma split_acc_append:
  "c \<notin> set p \<Longrightarrow> split_acc c cur (p @ c # rest) = (cur @ p) # split_acc c [] rest"
  by (induction p arbitrary: cur) auto

lemma split_acc_join:
  "\<forall>s \<in> set segs. c \<notin> set s \<Longrightarrow>
   split_acc c cur (str_join segs [c] @ [c]) =
     (case segs of [] \<Rightarrow> [cur, []] | p # ps \<Rightarrow> (cur @ p) # ps @ [[]])"
proof (induction segs "[c]" arbitrary: cur rule: str_join.induct)
  case 1
  show ?case by simp
next
  case (2 p)
  then show ?case using split_acc_append [of c p cur "[]"] by simp
next
  case (3 p q ps)
  from 3 have "split_acc c [] (str_join (q # ps) [c] @ [c]) = q # ps @ [[]]" by simp
  with 3 show ?case using split_acc_append [of c p cur "str_join (q # ps) [c] @ [c]"] by simp
qed

lemma normalizeString_step:
  "normalizeString a st (s # ss) =
     (if s = [] \<or> s = ''.'' then normalizeString a st ss
      else if s = ''..'' then
        (case st of
           [] \<Rightarrow> normalizeString a (if a then [s] else []) ss
         | t # st' \<Rightarrow>
             if t = ''..'' then normalizeString a (if a then s # st else st) ss
             else normalizeString a st' ss)
      else normalizeString a (s # st) ss)"
  by (rule normalizeString.simps)

declare normalizeString.simps(2) [simp del]

lemma normalizeString_plain:
  "\<forall>s \<in> set st. plain_segment s \<Longrightarrow> \<forall>s \<in> set ss. CHR ''/'' \<notin> set s \<Longrightarrow>
   \<forall>s \<in> set (normalizeString False st ss). plain_segment s"
proof (induction ss arbitrary: st)
  case Nil
  then show ?case by simp
next
  case (Cons s ss)
  from Cons.prems have ss: "\<forall>s \<in> set ss. CHR ''/'' \<notin> set s" and s: "CHR ''/'' \<notin> set s"
    by simp_all
  consider (skip) "s = [] \<or> s = ''.''" | (up) "s = ''..''" | (push) "plain_segment s"
    using s unfolding plain_segment_def by blast
  then show ?case
  proof cases
    case skip
    then have "normalizeString False st (s # ss) = normalizeString False st ss"
      by (subst normalizeString_step) simp
    with Cons.IH [OF Cons.prems(1) ss] show ?thesis by simp
  next
    case up
    show ?thesis
    proof (cases st)
      case Nil
      with up have "normalizeString False st (s # ss) = normalizeString False [] ss"
        by (subst normalizeString_step) simp
      with Cons.IH [of "[]", OF _ ss] show ?thesis by simp
    next
      case (Cons t st')
      with Cons.prems(1) have t: "t \<noteq> ''..''" and st': "\<forall>s \<in> set st'. plain_segment s"
        by (auto simp: plain_segment_def)
      from up Cons t have "normalizeString False st (s # ss) = normalizeString False st' ss"
        by (subst normalizeString_step) simp
      with Cons.IH [OF st' ss] show ?thesis by simp
    qed
  next
    case push
    then have "normalizeString False st (s # ss) = normalizeString False (s # st) ss"
      by (subst normalizeString_step) (simp add: plain_segment_def)
    moreover from push Cons.prems(1) have "\<forall>x \<in> set (s # st). plain_segment x" by simp
    from Cons.IH [OF this ss] have "\<forall>x \<in> set (normalizeString False (s # st) ss). plain_segment x" .
    ultimately show ?thesis by simp
  qed
qed

lemma normalizeString_keeps_plain:
  "\<forall>s \<in> set xs. plain_segment s \<Longrightarrow>
   normalizeString a st (xs @ ys) = normalizeString a (rev xs @ st) ys"
proof (induction xs arbitrary: st)
  case Nil
  show ?case by simp
next
  case (Cons x xs)
  then have "plain_segment x" and xs: "\<forall>s \<in> set xs. plain_segment s" by simp_all
  then have "normalizeString a st ((x # xs) @ ys) = normalizeString a (x # st) (xs @ ys)"
    by (simp add: normalizeString_step [of a st x] plain_segment_def)
  with Cons.IH [OF xs, of "x # st"] show ?case by simp
qed

lemma normalizeString_skip_empty:
  "normalizeString a st ([] # ss) = normalizeString a st ss"
  by (simp add: normalizeString_step)

lemma posix_resolve_absolute:
  assumes "cwd \<noteq> []" and "hd cwd = CHR ''/''"
  shows "\<exists>segs. (\<forall>s \<in> set segs. plain_segment s) \<and> posix_resolve cwd a b = ''/'' @ str_join segs ''/''"
proof -
  let ?rp = "resolve_prepend [b, a, cwd]"
  from assms have abs: "?rp \<noteq> [] \<and> hd ?rp = CHR ''/''"
    by (intro resolve_prepend_absolute) simp
  let ?segs = "normalizeString False [] (str_split ?rp CHR ''/'')"
  have "\<forall>s \<in> set (str_split ?rp CHR ''/''). CHR ''/'' \<notin> set s"
    unfolding str_split_def by (rule split_acc_no_sep) simp
  then have "\<forall>s \<in> set ?segs. plain_segment s"
    by (intro normalizeString_plain) simp_all
  moreover from abs have "posix_resolve cwd a b = ''/'' @ str_join ?segs ''/''"
    by (simp add: posix_resolve_def Let_def)
  ultimately show ?thesis by blast
qed

lemma posix_resolve_of_absolute:
  assumes plain: "\<forall>s \<in> set segs. plain_segment s"
  shows "posix_resolve cwd a (''/'' @ str_join segs ''/'') = ''/'' @ str_join segs ''/''"
proof -
  let ?r = "''/'' @ str_join segs ''/''"
  have rp: "resolve_prepend [?r, a, cwd] = ?r @ ''/''" by simp
  from plain have nosep: "\<forall>s \<in> set segs. CHR ''/'' \<notin> set s"
    by (simp add: plain_segment_def)
  have "str_split (?r @ ''/'') CHR ''/'' = [] # split_acc CHR ''/'' [] (str_join segs ''/'' @ ''/'')"
    by (simp add: str_split_def)
  also have "\<dots> = [] # (case segs of [] \<Rightarrow> [[], []] | p # ps \<Rightarrow> p # ps @ [[]])"
    using split_acc_join [OF nosep, of "[]"] by (simp split: list.split)
  finally have sp: "str_split (?r @ ''/'') CHR ''/'' =
      [] # (case segs of [] \<Rightarrow> [[], []] | p # ps \<Rightarrow> segs @ [[]])"
    by (simp split: list.split)
  have "normalizeString False [] (str_split (?r @ ''/'') CHR ''/'') = segs"
  proof (cases segs)
    case Nil
    with sp show ?thesis by (simp add: normalizeString_skip_empty)
  next
    case (Cons p ps)
    with sp have "normalizeString False [] (str_split (?r @ ''/'') CHR ''/'')
        = normalizeString False [] (segs @ [[]])" by (simp add: normalizeString_skip_empty)
    also have "\<dots> = normalizeString False (rev segs @ []) [[]]"
      using plain by (rule normalizeString_keeps_plain)
    also have "\<dots> = segs" by (simp add: normalizeString_skip_empty)
    finally show ?thesis .
  qed
  with rp show ?thesis
    by (simp add: posix_resolve_def Let_def del: resolve_prepend.simps)
qed

lemma posix_resolve_twice:
  assumes "cwd \<noteq> []" and "hd cwd = CHR ''/''"
  shows "posix_resolve cwd a (posix_resolve cwd a b) = posix_resolve cwd a b"
proof -
  from posix_resolve_absolute [OF assms, of a b] obtain segs
    where "\<forall>s \<in> set segs. plain_segment s" and "posix_resolve cwd a b = ''/'' @ str_join segs ''/''"
    by blast
  then show ?thesis by (simp only: posix_resolve_of_absolute)
qed

lemma posix_host_resolve_twice:
  assumes "cwd \<noteq> []" and "hd cwd = CHR ''/''"
  shows "path_resolve (posix_host cwd) t (path_resolve (posix_host cwd) t P)
         = path_resolve (posix_host cwd) t P"
  using posix_resolve_twice [OF assms] by (simp add: posix_host_def)

end
